theory Spec2Isabelle
  imports Main
begin

section \<open>The automation library as the script sees it\<close>

text \<open>
  \<^verbatim>\<open>verify_delete_button.py\<close> is a straight line of calls into a browser-automation
  library. The library, the browser and the application under test are external: the
  script only sees whether a call returns or raises. A locator is the pair of arguments
  given to \<^verbatim>\<open>page.locator(selector, has_text=...)\<close>; building it touches nothing, the
  browser is asked when \<^verbatim>\<open>click\<close> or \<^verbatim>\<open>to_have_count\<close> is called on it.
\<close>

datatype locator = Locator string "string option"

text \<open>
  One constructor for each library call the source makes, with the arguments the source
  passes. \<^verbatim>\<open>Screenshot\<close> carries the \<^verbatim>\<open>path\<close> keyword and the \<^verbatim>\<open>full_page\<close> keyword,
  \<open>None\<close> when the caller leaves it out.
\<close>

datatype call =
    Sync_playwright_enter
  | Launch bool
  | New_context
  | New_page
  | Goto string
  | Click locator
  | Expect_to_have_count locator nat
  | Screenshot string "bool option"
  | Close
  | Sync_playwright_exit

datatype error = TimeoutError | AssertionError | PlaywrightError string

text \<open>
  The library is a parameter: from the state of the outside world (browser, page,
  application, disk) and a call it gives what the call raises, if anything, and the
  world afterwards. An event is a call together with what it raised.
\<close>

type_synonym 'w library = "'w \<Rightarrow> call \<Rightarrow> error option \<times> 'w"

type_synonym event = "call \<times> error option"

type_synonym 'w stmt = "'w \<Rightarrow> (error + unit) \<times> 'w \<times> event list"

section \<open>Python statements\<close>

definition invoke :: "'w library \<Rightarrow> call \<Rightarrow> 'w stmt" where
  "invoke lib c w =
     (case lib w c of
        (None, w') \<Rightarrow> (Inr (), w', [(c, None)])
      | (Some e, w') \<Rightarrow> (Inl e, w', [(c, Some e)]))"

text \<open>Two statements in a row: an exception in the first skips the second.\<close>

definition seq :: "'w stmt \<Rightarrow> 'w stmt \<Rightarrow> 'w stmt" where
  "seq p q w =
     (case p w of
        (Inl e, w1, t1) \<Rightarrow> (Inl e, w1, t1)
      | (Inr u, w1, t1) \<Rightarrow> (case q w1 of (r, w2, t2) \<Rightarrow> (r, w2, t1 @ t2)))"

text \<open>
  \<^verbatim>\<open>try: p finally: f\<close> runs \<open>f\<close> whatever \<open>p\<close> did. An exception of \<open>f\<close> replaces
  the outcome of \<open>p\<close>; otherwise the outcome of \<open>p\<close> stands.
\<close>

definition try_finally :: "'w stmt \<Rightarrow> 'w stmt \<Rightarrow> 'w stmt" where
  "try_finally p f w =
     (case p w of (r, w1, t1) \<Rightarrow>
       (case f w1 of
          (Inl e, w2, t2) \<Rightarrow> (Inl e, w2, t1 @ t2)
        | (Inr u, w2, t2) \<Rightarrow> (r, w2, t1 @ t2)))"

text \<open>
  \<^verbatim>\<open>with enter as x: body\<close>, for a context manager whose exit returns nothing (as that of
  \<^verbatim>\<open>sync_playwright()\<close>, declared \<^verbatim>\<open>-> None\<close>), so that it never swallows an exception:
  the exit runs once the body was entered, like a \<^verbatim>\<open>finally\<close>.
\<close>

definition with_stmt :: "'w stmt \<Rightarrow> 'w stmt \<Rightarrow> 'w stmt \<Rightarrow> 'w stmt" where
  "with_stmt enter body exit = seq enter (try_finally body exit)"

section \<open>The script\<close>

definition target_url :: string where
  "target_url = ''http://localhost:3000/mobile-test''"

definition add_hotspot_button :: locator where
  "add_hotspot_button = Locator ''button'' (Some ''Add Hotspot'')"

definition hotspot_element :: locator where
  "hotspot_element = Locator ''.hotspot-element'' None"

definition delete_hotspot_button :: locator where
  "delete_hotspot_button = Locator ''button[aria-label='Delete hotspot']'' None"

definition screenshot_path :: string where
  "screenshot_path = ''jules-scratch/verification/verification.png''"

text \<open>The body of the \<^verbatim>\<open>try\<close> block, lines 9 to 23.\<close>

definition scenario :: "'w library \<Rightarrow> 'w stmt" where
  "scenario lib =
     seq (invoke lib (Goto target_url))
    (seq (invoke lib (Click add_hotspot_button))
    (seq (invoke lib (Click hotspot_element))
    (seq (invoke lib (Click delete_hotspot_button))
    (seq (invoke lib (Expect_to_have_count hotspot_element 0))
         (invoke lib (Screenshot screenshot_path None))))))"

text \<open>\<^verbatim>\<open>def run(playwright)\<close>, lines 3 to 25.\<close>

definition run :: "'w library \<Rightarrow> 'w stmt" where
  "run lib =
     seq (invoke lib (Launch True))
    (seq (invoke lib New_context)
    (seq (invoke lib New_page)
         (try_finally (scenario lib) (invoke lib Close))))"

text \<open>The module body, lines 27 and 28.\<close>

definition script :: "'w library \<Rightarrow> 'w stmt" where
  "script lib =
     with_stmt (invoke lib Sync_playwright_enter) (run lib) (invoke lib Sync_playwright_exit)"

text \<open>
  The interpreter ends with status 0 when the module body returns and with status 1 when
  an exception leaves it.
\<close>

definition exit_status :: "error + unit \<Rightarrow> int" where
  "exit_status r = (case r of Inl e \<Rightarrow> 1 | Inr u \<Rightarrow> 0)"

text \<open>
  A process is started with an argument vector and an environment. The module imports
  neither \<^verbatim>\<open>sys\<close> nor \<^verbatim>\<open>os\<close> and reads neither of them. The library runs inside the
  same process and can read both: what it answers is a function of them.
\<close>

type_synonym 'w process_library = "string list \<Rightarrow> (string \<rightharpoonup> string) \<Rightarrow> 'w library"

definition main ::
  "string list \<Rightarrow> (string \<rightharpoonup> string) \<Rightarrow> 'w process_library \<Rightarrow> 'w \<Rightarrow> int \<times> event list" where
  "main argv environ plib w =
     (case script (plib argv environ) w of (r, w', t) \<Rightarrow> (exit_status r, t))"

section \<open>Reading a run\<close>

definition outcome :: "(error + unit) \<times> 'w \<times> event list \<Rightarrow> error + unit" where
  "outcome x = fst x"

definition world :: "(error + unit) \<times> 'w \<times> event list \<Rightarrow> 'w" where
  "world x = fst (snd x)"

definition events :: "(error + unit) \<times> 'w \<times> event list \<Rightarrow> event list" where
  "events x = snd (snd x)"

definition calls :: "event list \<Rightarrow> call list" where
  "calls t = map fst t"

definition raised :: "event list \<Rightarrow> error list" where
  "raised t = List.map_filter snd t"

definition ok :: "call list \<Rightarrow> event list" where
  "ok cs = map (\<lambda>c. (c, None)) cs"

fun is_screenshot :: "call \<Rightarrow> bool" where
  "is_screenshot (Screenshot p fp) = True"
| "is_screenshot c = False"

fun is_click :: "call \<Rightarrow> bool" where
  "is_click (Click l) = True"
| "is_click c = False"

fun is_expect :: "call \<Rightarrow> bool" where
  "is_expect (Expect_to_have_count l n) = True"
| "is_expect c = False"

text \<open>
  What a screenshot call asks for. The library documents \<^verbatim>\<open>full_page\<close> as false when
  the caller leaves it out: the picture is then the visible viewport.
\<close>

fun full_page :: "call \<Rightarrow> bool" where
  "full_page (Screenshot p (Some b)) = b"
| "full_page c = False"

text \<open>The calls of the source in program order.\<close>

definition setup_calls :: "call list" where
  "setup_calls = [Launch True, New_context, New_page]"

definition scenario_calls :: "call list" where
  "scenario_calls =
     [Goto target_url, Click add_hotspot_button, Click hotspot_element,
      Click delete_hotspot_button, Expect_to_have_count hotspot_element 0,
      Screenshot screenshot_path None]"

definition run_calls :: "call list" where
  "run_calls = setup_calls @ scenario_calls @ [Close]"

definition script_calls :: "call list" where
  "script_calls = Sync_playwright_enter # run_calls @ [Sync_playwright_exit]"

text \<open>Calls made one after the other until one raises.\<close>

fun invoke_each :: "'w library \<Rightarrow> call list \<Rightarrow> 'w stmt" where
  "invoke_each lib [] w = (Inr (), w, [])"
| "invoke_each lib (c # cs) w = seq (invoke lib c) (invoke_each lib cs) w"

text \<open>
  What the library answers to a list of calls made one after the other, whatever they
  raise: the world at the end and the events.
\<close>

fun answers :: "'w library \<Rightarrow> call list \<Rightarrow> 'w \<Rightarrow> 'w \<times> event list" where
  "answers lib [] w = (w, [])"
| "answers lib (c # cs) w =
     (case answers lib cs (snd (lib w c)) of (w', t) \<Rightarrow> (w', (c, fst (lib w c)) # t))"

section \<open>A stub application\<close>

text \<open>
  A small page to run the script against: the number of controls that add a hotspot,
  the number of hotspot markers, whether a marker is selected, whether deleting works,
  and the files on disk. A call listed in \<open>faulty\<close> raises.
\<close>

record stub_world =
  add_buttons :: nat
  markers :: nat
  selected :: bool
  delete_works :: bool
  files :: "string \<rightharpoonup> nat"

definition stub_count :: "stub_world \<Rightarrow> locator \<Rightarrow> nat" where
  "stub_count w l =
     (if l = add_hotspot_button then add_buttons w
      else if l = hotspot_element then markers w
      else if l = delete_hotspot_button then (if selected w then 1 else 0)
      else 0)"

definition stub_click :: "stub_world \<Rightarrow> locator \<Rightarrow> stub_world" where
  "stub_click w l =
     (if l = add_hotspot_button then w\<lparr>markers := Suc (markers w)\<rparr>
      else if l = hotspot_element then w\<lparr>selected := True\<rparr>
      else if l = delete_hotspot_button \<and> delete_works w
        then w\<lparr>markers := markers w - 1, selected := False\<rparr>
      else w)"

definition stub :: "call list \<Rightarrow> stub_world library" where
  "stub faulty w c =
     (if c \<in> set faulty then (Some (PlaywrightError ''fault''), w)
      else case c of
        Click l \<Rightarrow>
          (if stub_count w l = 0 then (Some TimeoutError, w)
           else if 1 < stub_count w l then (Some (PlaywrightError ''strict mode violation''), w)
           else (None, stub_click w l))
      | Expect_to_have_count l n \<Rightarrow>
          (if stub_count w l = n then (None, w) else (Some AssertionError, w))
      | Screenshot p fp \<Rightarrow> (None, w\<lparr>files := (files w)(p \<mapsto> markers w)\<rparr>)
      | _ \<Rightarrow> (None, w))"

definition clean_page :: stub_world where
  "clean_page = \<lparr>add_buttons = 1, markers = 0, selected = False, delete_works = True,
     files = Map.empty\<rparr>"


text \<open>A library that reads neither the argument vector nor the environment.\<close>

definition fixed :: "'w library \<Rightarrow> 'w process_library" where
  "fixed lib argv environ = lib"

text \<open>
  A library that reads the environment: with \<^verbatim>\<open>PLAYWRIGHT_BROWSERS_PATH\<close> set it does
  not find its browser and the launch raises; otherwise it is the stub application.
\<close>

definition env_stub :: "stub_world process_library" where
  "env_stub argv environ =
     (case environ ''PLAYWRIGHT_BROWSERS_PATH'' of
        None \<Rightarrow> stub []
      | Some dir \<Rightarrow> stub [Launch True])"

section \<open>Statements and their events\<close>

lemma invoke_None: "fst (lib w c) = None \<Longrightarrow> invoke lib c w = (Inr (), snd (lib w c), [(c, None)])"
  by (cases "lib w c") (simp add: invoke_def)

lemma invoke_Some: "fst (lib w c) = Some e \<Longrightarrow> invoke lib c w = (Inl e, snd (lib w c), [(c, Some e)])"
  by (cases "lib w c") (simp add: invoke_def)

lemma invoke_eq: "invoke lib c w =
    ((case fst (lib w c) of None \<Rightarrow> Inr () | Some e \<Rightarrow> Inl e), snd (lib w c), [(c, fst (lib w c))])"
  by (cases "lib w c") (simp add: invoke_def split: option.splits)

lemma seq_Inl: "p w = (Inl e, w1, t1) \<Longrightarrow> seq p q w = (Inl e, w1, t1)"
  by (simp add: seq_def)

lemma seq_skip: "seq p (\<lambda>w. (Inr (), w, [])) = p"
  by (rule ext) (simp add: seq_def split: prod.splits sum.splits)

lemma invoke_each_append:
  "invoke_each lib (xs @ ys) w = seq (invoke_each lib xs) (invoke_each lib ys) w"
proof (induction xs arbitrary: w)
  case Nil
  show ?case by (simp add: seq_def split: prod.splits)
next
  case (Cons x xs)
  show ?case
    by (simp add: seq_def Cons.IH split: prod.splits sum.splits)
qed

lemma invoke_each_single: "invoke_each lib [c] = invoke lib c"
  by (rule ext) (simp add: seq_def invoke_def split: prod.splits option.splits)

lemma scenario_invoke_each: "scenario lib = invoke_each lib scenario_calls"
proof -
  have skip: "invoke_each lib [] = (\<lambda>w. (Inr (), w, []))"
    by (rule ext) simp
  have step: "\<And>c cs. invoke_each lib (c # cs) = seq (invoke lib c) (invoke_each lib cs)"
    by (rule ext) simp
  show ?thesis
    by (simp only: scenario_def scenario_calls_def step skip seq_skip)
qed

lemma setup_invoke_each:
  "run lib = seq (invoke_each lib setup_calls) (try_finally (invoke_each lib scenario_calls) (invoke lib Close))"
proof -
  have assoc: "\<And>p q r. seq p (seq q r) = seq (seq p q) r"
    by (rule ext) (simp add: seq_def split: prod.splits sum.splits)
  have step: "\<And>c cs. invoke_each lib (c # cs) = seq (invoke lib c) (invoke_each lib cs)"
    by (rule ext) simp
  have "invoke_each lib setup_calls =
      seq (seq (invoke lib (Launch True)) (invoke lib New_context)) (invoke lib New_page)"
    by (simp only: setup_calls_def step invoke_each_single assoc)
  then show ?thesis
    by (simp only: run_def scenario_invoke_each assoc)
qed

lemma invoke_each_shape:
  "(\<exists>w'. invoke_each lib cs w = (Inr (), w', ok cs)) \<or>
   (\<exists>n e w'. n < length cs \<and>
      invoke_each lib cs w = (Inl e, w', ok (take n cs) @ [(cs ! n, Some e)]))"
proof (induction cs arbitrary: w)
  case Nil
  show ?case by (simp add: ok_def)
next
  case (Cons c cs)
  show ?case
  proof (cases "fst (lib w c)")
    case (Some e)
    from invoke_Some [of lib w c e, OF Some]
    have "invoke_each lib (c # cs) w = (Inl e, snd (lib w c), ok (take 0 (c # cs)) @ [((c # cs) ! 0, Some e)])"
      by (simp add: seq_Inl ok_def)
    then show ?thesis by blast
  next
    case None
    note first = invoke_None [of lib w c, OF None]
    from Cons.IH [of "snd (lib w c)"] show ?thesis
    proof
      assume "\<exists>w'. invoke_each lib cs (snd (lib w c)) = (Inr (), w', ok cs)"
      then obtain w' where "invoke_each lib cs (snd (lib w c)) = (Inr (), w', ok cs)" ..
      then have "invoke_each lib (c # cs) w = (Inr (), w', ok (c # cs))"
        by (simp add: seq_def first ok_def)
      then show ?thesis by blast
    next
      assume "\<exists>n e w'. n < length cs \<and>
        invoke_each lib cs (snd (lib w c)) = (Inl e, w', ok (take n cs) @ [(cs ! n, Some e)])"
      then obtain n e w' where n: "n < length cs"
        and rest: "invoke_each lib cs (snd (lib w c)) = (Inl e, w', ok (take n cs) @ [(cs ! n, Some e)])"
        by blast
      from rest have "invoke_each lib (c # cs) w =
          (Inl e, w', ok (take (Suc n) (c # cs)) @ [((c # cs) ! Suc n, Some e)])"
        by (simp add: seq_def first ok_def)
      with n show ?thesis by (intro disjI2 exI [of _ "Suc n"]) auto
    qed
  qed
qed

lemma run_shape:
  "(\<exists>n e w'. n < length setup_calls \<and>
      run lib w = (Inl e, w', ok (take n setup_calls) @ [(setup_calls ! n, Some e)])) \<or>
   (\<exists>rc w'. run lib w =
      ((case rc of None \<Rightarrow> Inr () | Some e' \<Rightarrow> Inl e'), w',
       ok (setup_calls @ scenario_calls) @ [(Close, rc)])) \<or>
   (\<exists>n e rc w'. n < length scenario_calls \<and>
      run lib w =
        (Inl (case rc of None \<Rightarrow> e | Some e' \<Rightarrow> e'), w',
         ok (setup_calls @ take n scenario_calls) @ [(scenario_calls ! n, Some e), (Close, rc)]))"
proof -
  from invoke_each_shape [of lib setup_calls w] show ?thesis
  proof (elim disjE exE conjE)
    fix n e w'
    assume "n < length setup_calls"
      and "invoke_each lib setup_calls w = (Inl e, w', ok (take n setup_calls) @ [(setup_calls ! n, Some e)])"
    then show ?thesis
      by (intro disjI1 exI [of _ n] exI [of _ e] exI [of _ w']) (simp add: setup_invoke_each seq_Inl)
  next
    fix w1
    assume start: "invoke_each lib setup_calls w = (Inr (), w1, ok setup_calls)"
    from invoke_each_shape [of lib scenario_calls w1] show ?thesis
    proof (elim disjE exE conjE)
      fix w2
      assume body: "invoke_each lib scenario_calls w1 = (Inr (), w2, ok scenario_calls)"
      have "run lib w = ((case fst (lib w2 Close) of None \<Rightarrow> Inr () | Some e' \<Rightarrow> Inl e'), snd (lib w2 Close),
          ok (setup_calls @ scenario_calls) @ [(Close, fst (lib w2 Close))])"
        by (simp add: setup_invoke_each seq_def start try_finally_def body invoke_eq ok_def
            split: option.splits)
      then show ?thesis by blast
    next
      fix n e w2
      assume n: "n < length scenario_calls"
        and body: "invoke_each lib scenario_calls w1 =
          (Inl e, w2, ok (take n scenario_calls) @ [(scenario_calls ! n, Some e)])"
      have "run lib w = (Inl (case fst (lib w2 Close) of None \<Rightarrow> e | Some e' \<Rightarrow> e'), snd (lib w2 Close),
          ok (setup_calls @ take n scenario_calls) @
            [(scenario_calls ! n, Some e), (Close, fst (lib w2 Close))])"
        by (simp add: setup_invoke_each seq_def start try_finally_def body invoke_eq ok_def
            split: option.splits)
      with n show ?thesis by blast
    qed
  qed
qed

lemma calls_ok [simp]: "calls (ok cs) = cs"
  by (simp add: calls_def ok_def comp_def)

lemma calls_append [simp]: "calls (s @ t) = calls s @ calls t"
  by (simp add: calls_def)

lemma calls_Cons [simp]: "calls ((c, r) # t) = c # calls t"
  by (simp add: calls_def)

lemma calls_Nil [simp]: "calls [] = []"
  by (simp add: calls_def)

lemma raised_ok [simp]: "raised (ok cs) = []"
  by (induction cs) (simp_all add: raised_def ok_def List.map_filter_simps)

lemma raised_append [simp]: "raised (s @ t) = raised s @ raised t"
  by (simp add: raised_def List.map_filter_def)

lemma raised_Cons [simp]: "raised ((c, r) # t) = (case r of None \<Rightarrow> raised t | Some e \<Rightarrow> e # raised t)"
  by (simp add: raised_def List.map_filter_simps split: option.splits)

lemma raised_Nil [simp]: "raised [] = []"
  by (simp add: raised_def List.map_filter_simps)

lemma length_setup_calls [simp]: "length setup_calls = 3"
  by (simp add: setup_calls_def)

lemma length_scenario_calls [simp]: "length scenario_calls = 6"
  by (simp add: scenario_calls_def)

lemma distinct_run_calls: "distinct run_calls"
  by (simp add: run_calls_def setup_calls_def scenario_calls_def add_hotspot_button_def
      hotspot_element_def delete_hotspot_button_def)

lemma Close_notin: "Close \<notin> set (setup_calls @ scenario_calls)"
  by (simp add: setup_calls_def scenario_calls_def)

lemma run_calls_take:
  "\<exists>n. 0 < n \<and> n \<le> 9 \<and>
     calls (events (run lib w)) =
       take n (setup_calls @ scenario_calls) @ (if 3 < n then [Close] else [])"
proof -
  from run_shape [of lib w] show ?thesis
  proof (elim disjE exE conjE)
    fix n e w'
    assume n: "n < length setup_calls"
      and r: "run lib w = (Inl e, w', ok (take n setup_calls) @ [(setup_calls ! n, Some e)])"
    from n have "calls (events (run lib w)) = take (Suc n) setup_calls"
      by (simp add: r events_def take_Suc_conv_app_nth)
    with n show ?thesis
      by (intro exI [of _ "Suc n"]) simp
  next
    fix rc w'
    assume r: "run lib w = ((case rc of None \<Rightarrow> Inr () | Some e' \<Rightarrow> Inl e'), w',
       ok (setup_calls @ scenario_calls) @ [(Close, rc)])"
    show ?thesis
      by (intro exI [of _ 9]) (simp add: r events_def)
  next
    fix n e rc w'
    assume n: "n < length scenario_calls"
      and r: "run lib w = (Inl (case rc of None \<Rightarrow> e | Some e' \<Rightarrow> e'), w',
         ok (setup_calls @ take n scenario_calls) @ [(scenario_calls ! n, Some e), (Close, rc)])"
    from n have "calls (events (run lib w)) = setup_calls @ take (Suc n) scenario_calls @ [Close]"
      by (simp add: r events_def take_Suc_conv_app_nth)
    with n show ?thesis
      by (intro exI [of _ "3 + Suc n"]) simp
  qed
qed

lemma run_no_raise:
  "raised (events (run lib w)) = [] \<Longrightarrow>
     events (run lib w) = ok run_calls \<and> outcome (run lib w) = Inr ()"
proof -
  assume quiet: "raised (events (run lib w)) = []"
  from run_shape [of lib w] show ?thesis
  proof (elim disjE exE conjE)
    fix n e w'
    assume "run lib w = (Inl e, w', ok (take n setup_calls) @ [(setup_calls ! n, Some e)])"
    with quiet show ?thesis by (simp add: events_def)
  next
    fix rc w'
    assume r: "run lib w = ((case rc of None \<Rightarrow> Inr () | Some e' \<Rightarrow> Inl e'), w',
       ok (setup_calls @ scenario_calls) @ [(Close, rc)])"
    with quiet have "rc = None" by (simp add: events_def split: option.splits)
    with r show ?thesis by (simp add: events_def outcome_def run_calls_def ok_def)
  next
    fix n e rc w'
    assume "run lib w = (Inl (case rc of None \<Rightarrow> e | Some e' \<Rightarrow> e'), w',
         ok (setup_calls @ take n scenario_calls) @ [(scenario_calls ! n, Some e), (Close, rc)])"
    with quiet show ?thesis by (simp add: events_def)
  qed
qed

lemmas stub_defs = stub_def stub_count_def stub_click_def clean_page_def
  add_hotspot_button_def hotspot_element_def delete_hotspot_button_def

lemmas run_defs = run_def scenario_def seq_def try_finally_def invoke_def with_stmt_def script_def
  events_def outcome_def world_def main_def exit_status_def

lemma run_calls_distinct: "distinct (calls (events (run lib w)))"
proof -
  from run_calls_take [of lib w] obtain n where
    c: "calls (events (run lib w)) =
        take n (setup_calls @ scenario_calls) @ (if 3 < n then [Close] else [])"
    by blast
  have d: "distinct (take n (setup_calls @ scenario_calls))"
    using distinct_run_calls by (intro distinct_take) (simp add: run_calls_def)
  have "set (take n (setup_calls @ scenario_calls)) \<subseteq> set (setup_calls @ scenario_calls)"
    by (rule set_take_subset)
  with Close_notin have "Close \<notin> set (take n (setup_calls @ scenario_calls))"
    by blast
  with d show ?thesis
    unfolding c by (cases "3 < n") (simp_all del: take_append)
qed

lemma run_calls_subset: "set (calls (events (run lib w))) \<subseteq> set run_calls"
proof -
  from run_calls_take [of lib w] obtain n where
    c: "calls (events (run lib w)) =
        take n (setup_calls @ scenario_calls) @ (if 3 < n then [Close] else [])"
    by blast
  have "set (take n (setup_calls @ scenario_calls)) \<subseteq> set (setup_calls @ scenario_calls)"
    by (rule set_take_subset)
  then show ?thesis
    by (simp only: c) (auto simp add: run_calls_def simp del: take_append)
qed

lemma run_outcome_last:
  "outcome (run lib w) =
     (if raised (events (run lib w)) = [] then Inr () else Inl (last (raised (events (run lib w)))))"
  using run_shape [of lib w]
  by (elim disjE exE conjE) (simp_all add: outcome_def events_def split: option.splits)

lemma script_shape:
  "(\<exists>e w'. script lib w = (Inl e, w', [(Sync_playwright_enter, Some e)])) \<or>
   (\<exists>w1 rx w'. script lib w =
      ((case rx of None \<Rightarrow> outcome (run lib w1) | Some e \<Rightarrow> Inl e), w',
       (Sync_playwright_enter, None) # events (run lib w1) @ [(Sync_playwright_exit, rx)]))"
proof (cases "fst (lib w Sync_playwright_enter)")
  case (Some e)
  then have "script lib w = (Inl e, snd (lib w Sync_playwright_enter), [(Sync_playwright_enter, Some e)])"
    by (simp add: script_def with_stmt_def seq_def invoke_eq)
  then show ?thesis by blast
next
  case None
  obtain r w2 t where r: "run lib (snd (lib w Sync_playwright_enter)) = (r, w2, t)"
    by (cases "run lib (snd (lib w Sync_playwright_enter))") auto
  have "script lib w =
     ((case fst (lib w2 Sync_playwright_exit) of None \<Rightarrow> outcome (run lib (snd (lib w Sync_playwright_enter)))
        | Some e \<Rightarrow> Inl e), snd (lib w2 Sync_playwright_exit),
      (Sync_playwright_enter, None) # events (run lib (snd (lib w Sync_playwright_enter))) @
        [(Sync_playwright_exit, fst (lib w2 Sync_playwright_exit))])"
    by (simp add: script_def with_stmt_def seq_def try_finally_def invoke_eq None r outcome_def
        events_def split: option.splits)
  then show ?thesis by blast
qed

lemma script_outcome_last:
  "outcome (script lib w) =
     (if raised (events (script lib w)) = [] then Inr () else Inl (last (raised (events (script lib w)))))"
proof -
  from script_shape [of lib w] show ?thesis
  proof (elim disjE exE)
    fix e w'
    assume "script lib w = (Inl e, w', [(Sync_playwright_enter, Some e)])"
    then show ?thesis by (simp add: outcome_def events_def)
  next
    fix w1 rx w'
    assume s: "script lib w =
      ((case rx of None \<Rightarrow> outcome (run lib w1) | Some e \<Rightarrow> Inl e), w',
       (Sync_playwright_enter, None) # events (run lib w1) @ [(Sync_playwright_exit, rx)])"
    have o: "outcome (script lib w) = (case rx of None \<Rightarrow> outcome (run lib w1) | Some e \<Rightarrow> Inl e)"
      and e: "events (script lib w) =
        (Sync_playwright_enter, None) # events (run lib w1) @ [(Sync_playwright_exit, rx)]"
      by (simp_all add: s outcome_def events_def)
    show ?thesis
      by (simp only: o e run_outcome_last [of lib w1])
         (simp split: option.splits)
  qed
qed

lemma script_no_raise:
  "raised (events (script lib w)) = [] \<Longrightarrow> events (script lib w) = ok script_calls"
proof -
  assume quiet: "raised (events (script lib w)) = []"
  from script_shape [of lib w] show ?thesis
  proof (elim disjE exE)
    fix e w'
    assume "script lib w = (Inl e, w', [(Sync_playwright_enter, Some e)])"
    with quiet show ?thesis by (simp add: events_def)
  next
    fix w1 rx w'
    assume s: "script lib w =
      ((case rx of None \<Rightarrow> outcome (run lib w1) | Some e \<Rightarrow> Inl e), w',
       (Sync_playwright_enter, None) # events (run lib w1) @ [(Sync_playwright_exit, rx)])"
    then have e: "events (script lib w) =
        (Sync_playwright_enter, None) # events (run lib w1) @ [(Sync_playwright_exit, rx)]"
      by (simp add: events_def)
    with quiet have "raised (events (run lib w1)) = []" and "rx = None"
      by (simp_all split: option.splits)
    with run_no_raise [of lib w1] have "events (run lib w1) = ok run_calls" and "rx = None"
      by simp_all
    with e show ?thesis by (simp add: script_calls_def ok_def)
  qed
qed

lemma script_calls_distinct: "distinct (calls (events (script lib w)))"
proof -
  have notin: "Sync_playwright_enter \<notin> set run_calls" "Sync_playwright_exit \<notin> set run_calls"
    by (simp_all add: run_calls_def setup_calls_def scenario_calls_def)
  from script_shape [of lib w] show ?thesis
  proof (elim disjE exE)
    fix e w'
    assume "script lib w = (Inl e, w', [(Sync_playwright_enter, Some e)])"
    then show ?thesis by (simp add: events_def)
  next
    fix w1 rx w'
    assume s: "script lib w =
      ((case rx of None \<Rightarrow> outcome (run lib w1) | Some e \<Rightarrow> Inl e), w',
       (Sync_playwright_enter, None) # events (run lib w1) @ [(Sync_playwright_exit, rx)])"
    then have e: "calls (events (script lib w)) =
        Sync_playwright_enter # calls (events (run lib w1)) @ [Sync_playwright_exit]"
      by (simp add: events_def)
    from notin run_calls_subset [of lib w1] run_calls_distinct [of lib w1] show ?thesis
      by (auto simp add: e)
  qed
qed

lemma script_calls_subset: "set (calls (events (script lib w))) \<subseteq> set script_calls"
proof -
  from script_shape [of lib w] show ?thesis
  proof (elim disjE exE)
    fix e w'
    assume "script lib w = (Inl e, w', [(Sync_playwright_enter, Some e)])"
    then show ?thesis by (simp add: events_def script_calls_def)
  next
    fix w1 rx w'
    assume s: "script lib w =
      ((case rx of None \<Rightarrow> outcome (run lib w1) | Some e \<Rightarrow> Inl e), w',
       (Sync_playwright_enter, None) # events (run lib w1) @ [(Sync_playwright_exit, rx)])"
    then have e: "calls (events (script lib w)) =
        Sync_playwright_enter # calls (events (run lib w1)) @ [Sync_playwright_exit]"
      by (simp add: events_def)
    from run_calls_subset [of lib w1] show ?thesis
      by (auto simp add: e script_calls_def)
  qed
qed

lemma main_eq:
  "main argv environ plib w =
     (exit_status (outcome (script (plib argv environ) w)), events (script (plib argv environ) w))"
  by (simp add: main_def outcome_def events_def split: prod.splits)

lemma mem_ok: "(c, r) \<in> set (ok cs) \<longleftrightarrow> c \<in> set cs \<and> r = None"
  by (auto simp add: ok_def)

lemma run_cases:
  obtains (launch_raises) e w' where
      "run lib w = (Inl e, w', [(Launch True, Some e)])"
  | (context_raises) e w' where
      "run lib w = (Inl e, w', [(Launch True, None), (New_context, Some e)])"
  | (page_raises) e w' where
      "run lib w = (Inl e, w', [(Launch True, None), (New_context, None), (New_page, Some e)])"
  | (scenario_done) rc w' where
      "run lib w = ((case rc of None \<Rightarrow> Inr () | Some e' \<Rightarrow> Inl e'), w',
         ok (setup_calls @ scenario_calls) @ [(Close, rc)])"
  | (step_raises) n e rc w' where "n < 6" and
      "run lib w = (Inl (case rc of None \<Rightarrow> e | Some e' \<Rightarrow> e'), w',
         ok (setup_calls @ take n scenario_calls) @ [(scenario_calls ! n, Some e), (Close, rc)])"
proof -
  from run_shape [of lib w] show thesis
  proof (elim disjE exE conjE)
    fix n e w'
    assume n: "n < length setup_calls"
      and r: "run lib w = (Inl e, w', ok (take n setup_calls) @ [(setup_calls ! n, Some e)])"
    from n have "n = 0 \<or> n = 1 \<or> n = 2" by auto
    then show thesis
    proof (elim disjE)
      assume "n = 0"
      with r show thesis by (intro launch_raises [of e w']) (simp add: setup_calls_def ok_def)
    next
      assume "n = 1"
      with r show thesis by (intro context_raises [of e w']) (simp add: setup_calls_def ok_def)
    next
      assume "n = 2"
      with r show thesis by (intro page_raises [of e w']) (simp add: setup_calls_def ok_def)
    qed
  next
    fix rc w'
    assume "run lib w = ((case rc of None \<Rightarrow> Inr () | Some e' \<Rightarrow> Inl e'), w',
       ok (setup_calls @ scenario_calls) @ [(Close, rc)])"
    then show thesis by (rule scenario_done)
  next
    fix n e rc w'
    assume "n < length scenario_calls"
      and "run lib w = (Inl (case rc of None \<Rightarrow> e | Some e' \<Rightarrow> e'), w',
         ok (setup_calls @ take n scenario_calls) @ [(scenario_calls ! n, Some e), (Close, rc)])"
    then show thesis by (intro step_raises [of n e rc w']) simp_all
  qed
qed

lemma stub_run_clean: "events (run (stub []) clean_page) = ok run_calls \<and> outcome (run (stub []) clean_page) = Inr ()"
  by (simp add: run_defs stub_defs ok_def run_calls_def setup_calls_def scenario_calls_def)

lemma stub_run_goto_fault:
  "events (run (stub [Goto target_url]) clean_page) =
     [(Launch True, None), (New_context, None), (New_page, None),
      (Goto target_url, Some (PlaywrightError ''fault'')), (Close, None)]"
  by (simp add: run_defs stub_defs)

lemma run_calls_list:
  "run_calls =
     [Launch True, New_context, New_page, Goto target_url, Click add_hotspot_button,
      Click hotspot_element, Click delete_hotspot_button,
      Expect_to_have_count hotspot_element 0, Screenshot screenshot_path None, Close]"
  by (simp add: run_calls_def setup_calls_def scenario_calls_def)

section \<open>The order of the calls\<close>

text \<open>
  C1, as stated: on every run the script makes exactly the ten calls of \<open>run_calls\<close>. It
  fails on a run in which a call raises: when \<^verbatim>\<open>page.goto\<close> raises, the three clicks,
  the assertion and the screenshot are never made.
\<close>

theorem run_goto_raises_counterexample:
  "calls (events (run (stub [Goto target_url]) clean_page)) =
     [Launch True, New_context, New_page, Goto target_url, Close] \<and>
   calls (events (run (stub [Goto target_url]) clean_page)) \<noteq> run_calls"
  by (simp add: stub_run_goto_fault run_calls_list)

text \<open>
  C1, amended: on every run in which no call raises, \<^verbatim>\<open>run\<close> makes exactly the ten calls
  launch, new context, new page, goto, click "Add Hotspot", click the hotspot marker,
  click "Delete hotspot", expect count 0, screenshot, close, in this order, and returns.
  On any run the calls made are the first \<open>n\<close> of the nine calls before the close, in
  program order and each once, followed by the close when the navigation was reached.
\<close>

theorem run_sequence:
  "run_calls =
     [Launch True, New_context, New_page, Goto target_url, Click add_hotspot_button,
      Click hotspot_element, Click delete_hotspot_button,
      Expect_to_have_count hotspot_element 0, Screenshot screenshot_path None, Close] \<and>
   (raised (events (run lib w)) = [] \<longrightarrow>
      events (run lib w) = ok run_calls \<and> outcome (run lib w) = Inr ()) \<and>
   (\<exists>n. 0 < n \<and> n \<le> 9 \<and>
      calls (events (run lib w)) =
        take n (setup_calls @ scenario_calls) @ (if 3 < n then [Close] else [])) \<and>
   distinct (calls (events (run lib w)))"
  using run_calls_list run_no_raise [of lib w] run_calls_take [of lib w] run_calls_distinct [of lib w]
  by blast

theorem run_sequence_witness:
  "raised (events (run (stub []) clean_page)) = [] \<and>
   calls (events (run (stub []) clean_page)) =
     [Launch True, New_context, New_page, Goto target_url, Click add_hotspot_button,
      Click hotspot_element, Click delete_hotspot_button,
      Expect_to_have_count hotspot_element 0, Screenshot screenshot_path None, Close]"
proof -
  have quiet: "raised (events (run (stub []) clean_page)) = []"
    by (simp add: stub_run_clean)
  from run_sequence [of "stub []" clean_page] quiet
  have "events (run (stub []) clean_page) = ok run_calls"
    and "run_calls =
     [Launch True, New_context, New_page, Goto target_url, Click add_hotspot_button,
      Click hotspot_element, Click delete_hotspot_button,
      Expect_to_have_count hotspot_element 0, Screenshot screenshot_path None, Close]"
    by blast+
  with quiet show ?thesis by simp
qed

section \<open>Closing the browser\<close>

lemma scenario_nth_mem: "n < 6 \<Longrightarrow> scenario_calls ! n \<in> set scenario_calls"
  by simp

lemma stub_run_page_fault:
  "events (run (stub [New_page]) clean_page) =
     [(Launch True, None), (New_context, None), (New_page, Some (PlaywrightError ''fault''))]"
  by (simp add: run_defs stub_defs)

text \<open>
  C9: the \<^verbatim>\<open>finally\<close> block covers the navigation and what follows it. Whenever the
  navigation was reached, \<^verbatim>\<open>browser.close()\<close> is called; when creating the context or the
  page raises, the browser has been launched and \<^verbatim>\<open>run\<close> ends without calling
  \<^verbatim>\<open>browser.close()\<close>.
\<close>

theorem close_skipped_when_setup_raises:
  "((New_context, Some e) \<in> set (events (run lib w)) \<or>
    (New_page, Some e) \<in> set (events (run lib w)) \<longrightarrow>
      (Launch True, None) \<in> set (events (run lib w)) \<and>
      Close \<notin> set (calls (events (run lib w)))) \<and>
   (Goto target_url \<in> set (calls (events (run lib w))) \<longrightarrow>
      Close \<in> set (calls (events (run lib w))))"
proof (cases rule: run_cases [of lib w])
  case (launch_raises e' w')
  then show ?thesis by (simp add: events_def)
next
  case (context_raises e' w')
  then show ?thesis by (simp add: events_def)
next
  case (page_raises e' w')
  then show ?thesis by (simp add: events_def)
next
  case (scenario_done rc w')
  then show ?thesis
    by (simp add: events_def mem_ok setup_calls_def scenario_calls_def)
next
  case (step_raises n e' rc w')
  have "New_context \<notin> set scenario_calls" "New_page \<notin> set scenario_calls"
    by (simp_all add: scenario_calls_def)
  with scenario_nth_mem [OF step_raises(1)]
  have "scenario_calls ! n \<noteq> New_context" "scenario_calls ! n \<noteq> New_page"
    by auto
  then show ?thesis
    by (simp add: step_raises(2) events_def mem_ok)
qed

theorem close_skipped_when_setup_raises_witness:
  "(New_page, Some (PlaywrightError ''fault'')) \<in> set (events (run (stub [New_page]) clean_page)) \<and>
   (Launch True, None) \<in> set (events (run (stub [New_page]) clean_page)) \<and>
   Close \<notin> set (calls (events (run (stub [New_page]) clean_page))) \<and>
   Goto target_url \<in> set (calls (events (run (stub [Goto target_url]) clean_page))) \<and>
   Close \<in> set (calls (events (run (stub [Goto target_url]) clean_page)))"
proof -
  have raised_page: "(New_page, Some (PlaywrightError ''fault'')) \<in> set (events (run (stub [New_page]) clean_page))"
    by (simp add: stub_run_page_fault)
  have reached: "Goto target_url \<in> set (calls (events (run (stub [Goto target_url]) clean_page)))"
    by (simp add: stub_run_goto_fault)
  from close_skipped_when_setup_raises [of "PlaywrightError ''fault''" "stub [New_page]" clean_page] raised_page
  have "(Launch True, None) \<in> set (events (run (stub [New_page]) clean_page))"
    and "Close \<notin> set (calls (events (run (stub [New_page]) clean_page)))"
    by blast+
  moreover from close_skipped_when_setup_raises [of "PlaywrightError ''fault''" "stub [Goto target_url]" clean_page] reached
  have "Close \<in> set (calls (events (run (stub [Goto target_url]) clean_page)))"
    by blast
  ultimately show ?thesis using raised_page reached by blast
qed

section \<open>The screenshot\<close>

text \<open>
  C3, as stated: a successful run takes a full-page screenshot. The source passes the
  path only: on the successful run against the stub the one screenshot call asks for the
  default extent, which is the viewport.
\<close>

theorem screenshot_not_full_page_counterexample:
  "outcome (run (stub []) clean_page) = Inr () \<and>
   filter is_screenshot (calls (events (run (stub []) clean_page))) =
     [Screenshot screenshot_path None] \<and>
   map full_page (filter is_screenshot (calls (events (run (stub []) clean_page)))) = [False]"
  by (simp add: stub_run_clean run_calls_list)

text \<open>
  C3, amended: in step 6 of a successful run the script takes one screenshot, of the
  library's default extent (the viewport, since no \<^verbatim>\<open>full_page\<close> option is passed), and
  has it written to the fixed path \<^verbatim>\<open>jules-scratch/verification/verification.png\<close>; no
  run makes any other screenshot call.
\<close>

theorem screenshot_default_extent:
  "(outcome (run lib w) = Inr () \<longrightarrow>
      filter is_screenshot (calls (events (run lib w))) = [Screenshot screenshot_path None]) \<and>
   (\<forall>c \<in> set (calls (events (run lib w))).
      is_screenshot c \<longrightarrow> c = Screenshot screenshot_path None \<and> \<not> full_page c)"
proof
  show "outcome (run lib w) = Inr () \<longrightarrow>
      filter is_screenshot (calls (events (run lib w))) = [Screenshot screenshot_path None]"
  proof
    assume "outcome (run lib w) = Inr ()"
    with run_outcome_last [of lib w] have "raised (events (run lib w)) = []"
      by (simp split: if_splits)
    with run_no_raise [of lib w] have "calls (events (run lib w)) = run_calls"
      by simp
    then show "filter is_screenshot (calls (events (run lib w))) = [Screenshot screenshot_path None]"
      by (simp add: run_calls_list)
  qed
next
  show "\<forall>c \<in> set (calls (events (run lib w))).
      is_screenshot c \<longrightarrow> c = Screenshot screenshot_path None \<and> \<not> full_page c"
  proof (intro ballI impI)
    fix c
    assume "c \<in> set (calls (events (run lib w)))" and shot: "is_screenshot c"
    with run_calls_subset [of lib w] have "c \<in> set run_calls" by blast
    with shot show "c = Screenshot screenshot_path None \<and> \<not> full_page c"
      by (auto simp add: run_calls_list)
  qed
qed

theorem screenshot_default_extent_witness:
  "outcome (run (stub []) clean_page) = Inr () \<and>
   Screenshot screenshot_path None \<in> set (calls (events (run (stub []) clean_page))) \<and>
   is_screenshot (Screenshot screenshot_path None) \<and>
   filter is_screenshot (calls (events (run (stub []) clean_page))) = [Screenshot screenshot_path None] \<and>
   \<not> full_page (Screenshot screenshot_path None)"
proof -
  have passed: "outcome (run (stub []) clean_page) = Inr ()"
    by (simp add: stub_run_clean)
  have made: "Screenshot screenshot_path None \<in> set (calls (events (run (stub []) clean_page)))"
    by (simp add: stub_run_clean run_calls_list)
  have shot: "is_screenshot (Screenshot screenshot_path None)" by simp
  from screenshot_default_extent [of "stub []" clean_page] passed made shot
  show ?thesis by blast
qed

lemma script_calls_list:
  "script_calls =
     [Sync_playwright_enter, Launch True, New_context, New_page, Goto target_url,
      Click add_hotspot_button, Click hotspot_element, Click delete_hotspot_button,
      Expect_to_have_count hotspot_element 0, Screenshot screenshot_path None, Close,
      Sync_playwright_exit]"
  by (simp add: script_calls_def run_calls_list)

lemma stub_script_clean: "events (script (stub []) clean_page) = ok script_calls"
  by (simp add: run_defs stub_defs ok_def script_calls_list)

lemma stub_script_regression:
  "events (script (stub []) (clean_page\<lparr>delete_works := False\<rparr>)) =
     ok [Sync_playwright_enter, Launch True, New_context, New_page, Goto target_url,
         Click add_hotspot_button, Click hotspot_element, Click delete_hotspot_button] @
     [(Expect_to_have_count hotspot_element 0, Some AssertionError), (Close, None),
      (Sync_playwright_exit, None)]"
  by (simp add: run_defs stub_defs ok_def)

lemma exit_status_zero: "exit_status r = 0 \<longleftrightarrow> r = Inr ()"
  by (cases r) (simp_all add: exit_status_def)

lemma exit_status_one: "exit_status r = 1 \<longleftrightarrow> r \<noteq> Inr ()"
  by (cases r) (simp_all add: exit_status_def)

lemma seq_Inr_elim:
  assumes "seq p q w = (Inr (), w', t)"
  obtains w0 t0 t1 where "p w = (Inr (), w0, t0)" and "q w0 = (Inr (), w', t1)" and "t = t0 @ t1"
  using assms by (auto simp add: seq_def split: prod.splits sum.splits)

lemma invoke_each_Inr_events:
  assumes "invoke_each lib cs w = (Inr (), w', t)"
  shows "t = ok cs"
  using invoke_each_shape [of lib cs w] assms by auto

lemma invoke_each_head:
  "\<exists>r' w' rest. invoke_each lib (c # cs) w = (r', w', (c, fst (lib w c)) # rest)"
proof (cases "fst (lib w c)")
  case None
  obtain r' w' t' where "invoke_each lib cs (snd (lib w c)) = (r', w', t')"
    by (cases "invoke_each lib cs (snd (lib w c))") auto
  then show ?thesis by (simp add: seq_def invoke_eq None)
next
  case (Some e)
  then show ?thesis by (simp add: seq_def invoke_eq)
qed

lemma run_reaches:
  assumes parts: "scenario_calls = pre @ c # post"
    and reach: "invoke_each lib (setup_calls @ pre) w = (Inr (), w1, t)"
  shows "\<exists>rest. events (run lib w) = ok (setup_calls @ pre) @ (c, fst (lib w1 c)) # rest"
proof -
  from reach have "seq (invoke_each lib setup_calls) (invoke_each lib pre) w = (Inr (), w1, t)"
    by (simp only: invoke_each_append)
  then obtain w0 t0 t1 where start: "invoke_each lib setup_calls w = (Inr (), w0, t0)"
    and before: "invoke_each lib pre w0 = (Inr (), w1, t1)" and t: "t = t0 @ t1"
    by (rule seq_Inr_elim)
  from reach have t_ok: "t = ok (setup_calls @ pre)" by (rule invoke_each_Inr_events)
  obtain r' w' rest where here: "invoke_each lib (c # post) w1 = (r', w', (c, fst (lib w1 c)) # rest)"
    using invoke_each_head [of lib c post w1] by blast
  have body: "invoke_each lib scenario_calls w0 = (r', w', t1 @ (c, fst (lib w1 c)) # rest)"
    by (simp only: parts invoke_each_append) (simp add: seq_def before here del: invoke_each.simps)
  obtain rc w2 where closing: "lib w' Close = (rc, w2)" by (cases "lib w' Close") auto
  have "events (run lib w) = t0 @ (t1 @ (c, fst (lib w1 c)) # rest) @ [(Close, rc)]"
    by (simp add: setup_invoke_each seq_def start try_finally_def body invoke_def closing events_def
        split: option.splits)
  with t t_ok show ?thesis by simp
qed

lemma run_step_raises:
  assumes parts: "scenario_calls = pre @ c # post"
    and reach: "invoke_each lib (setup_calls @ pre) w = (Inr (), w1, t)"
    and fails: "fst (lib w1 c) = Some e"
  shows "\<exists>rc. events (run lib w) = ok (setup_calls @ pre) @ [(c, Some e), (Close, rc)] \<and>
           outcome (run lib w) = Inl (case rc of None \<Rightarrow> e | Some e' \<Rightarrow> e')"
proof -
  from reach have "seq (invoke_each lib setup_calls) (invoke_each lib pre) w = (Inr (), w1, t)"
    by (simp only: invoke_each_append)
  then obtain w0 t0 t1 where start: "invoke_each lib setup_calls w = (Inr (), w0, t0)"
    and before: "invoke_each lib pre w0 = (Inr (), w1, t1)" and t: "t = t0 @ t1"
    by (rule seq_Inr_elim)
  from reach have t_ok: "t = ok (setup_calls @ pre)" by (rule invoke_each_Inr_events)
  have here: "invoke_each lib (c # post) w1 = (Inl e, snd (lib w1 c), [(c, Some e)])"
    by (simp add: seq_def invoke_eq fails)
  have body: "invoke_each lib scenario_calls w0 = (Inl e, snd (lib w1 c), t1 @ [(c, Some e)])"
    by (simp only: parts invoke_each_append) (simp add: seq_def before here del: invoke_each.simps)
  obtain rc w2 where closing: "lib (snd (lib w1 c)) Close = (rc, w2)"
    by (cases "lib (snd (lib w1 c)) Close") auto
  have "run lib w = (Inl (case rc of None \<Rightarrow> e | Some e' \<Rightarrow> e'), w2,
      t0 @ (t1 @ [(c, Some e)]) @ [(Close, rc)])"
    by (simp add: setup_invoke_each seq_def start try_finally_def body invoke_def closing
        split: option.splits)
  with t t_ok show ?thesis by (simp add: events_def outcome_def)
qed

lemma stub_invoke_each_ok:
  "\<forall>c \<in> set cs. \<not> is_click c \<and> \<not> is_expect c \<and> \<not> is_screenshot c \<Longrightarrow>
   invoke_each (stub []) cs w = (Inr (), w, ok cs)"
proof (induction cs)
  case Nil
  show ?case by (simp add: ok_def)
next
  case (Cons c cs)
  then have "stub [] w c = (None, w)"
    by (cases c) (simp_all add: stub_def)
  with Cons show ?case by (simp add: seq_def invoke_def ok_def)
qed

section \<open>Steps that fail\<close>

text \<open>
  C7: take a library whose click on a locator that matches no element raises the
  locator timeout. If launch, context, page and navigation returned and the page then
  shows no control matching the "Add Hotspot" locator, the first click raises the
  timeout, the later clicks, the assertion and the screenshot are not made, the browser
  is closed, and \<^verbatim>\<open>run\<close> raises (the timeout, unless the close raised as well).
\<close>

theorem add_hotspot_absent:
  assumes timeout: "\<And>w' l. count w' l = 0 \<Longrightarrow> fst (lib w' (Click l)) = Some TimeoutError"
    and reach: "invoke_each lib (setup_calls @ [Goto target_url]) w = (Inr (), w1, t)"
    and absent: "count w1 add_hotspot_button = 0"
  shows "\<exists>rc. events (run lib w) =
            ok [Launch True, New_context, New_page, Goto target_url] @
            [(Click add_hotspot_button, Some TimeoutError), (Close, rc)] \<and>
          outcome (run lib w) = Inl (case rc of None \<Rightarrow> TimeoutError | Some e' \<Rightarrow> e')"
proof -
  have parts: "scenario_calls = [Goto target_url] @ Click add_hotspot_button #
      [Click hotspot_element, Click delete_hotspot_button,
       Expect_to_have_count hotspot_element 0, Screenshot screenshot_path None]"
    by (simp add: scenario_calls_def)
  from timeout [OF absent] have "fst (lib w1 (Click add_hotspot_button)) = Some TimeoutError" .
  from run_step_raises [OF parts reach this] show ?thesis
    by (simp add: setup_calls_def)
qed

theorem add_hotspot_absent_witness:
  "stub_count (clean_page\<lparr>add_buttons := 0\<rparr>) add_hotspot_button = 0 \<and>
   (\<exists>rc. events (run (stub []) (clean_page\<lparr>add_buttons := 0\<rparr>)) =
            ok [Launch True, New_context, New_page, Goto target_url] @
            [(Click add_hotspot_button, Some TimeoutError), (Close, rc)] \<and>
          outcome (run (stub []) (clean_page\<lparr>add_buttons := 0\<rparr>)) =
            Inl (case rc of None \<Rightarrow> TimeoutError | Some e' \<Rightarrow> e'))"
proof -
  have timeout: "\<And>w' l. stub_count w' l = 0 \<Longrightarrow> fst (stub [] w' (Click l)) = Some TimeoutError"
    by (simp add: stub_def)
  have reach: "invoke_each (stub []) (setup_calls @ [Goto target_url]) (clean_page\<lparr>add_buttons := 0\<rparr>) =
      (Inr (), clean_page\<lparr>add_buttons := 0\<rparr>, ok (setup_calls @ [Goto target_url]))"
    by (rule stub_invoke_each_ok) (simp add: setup_calls_def)
  have absent: "stub_count (clean_page\<lparr>add_buttons := 0\<rparr>) add_hotspot_button = 0"
    by (simp add: stub_count_def clean_page_def)
  from add_hotspot_absent [of stub_count "stub []", OF timeout reach absent] absent
  show ?thesis by blast
qed

section \<open>The count assertion\<close>

text \<open>
  C5: the one assertion of the script expects the count of the hotspot-marker locator
  to be 0. Take a library whose \<^verbatim>\<open>to_have_count\<close> returns when the count is the expected
  one and raises an assertion error otherwise. If the calls up to the click on the
  delete control returned, the assertion is made next, on the page as the delete left
  it; and if a marker is still there (count 1, or any count other than 0), the assertion
  raises, the screenshot is not made, the browser is closed, and \<^verbatim>\<open>run\<close> raises.
\<close>

theorem count_assertion:
  assumes expect: "\<And>w' l n. fst (lib w' (Expect_to_have_count l n)) =
        (if count w' l = n then None else Some AssertionError)"
    and reach: "invoke_each lib
        (setup_calls @ [Goto target_url, Click add_hotspot_button, Click hotspot_element,
           Click delete_hotspot_button]) w = (Inr (), w1, t)"
  shows "filter is_expect script_calls = [Expect_to_have_count hotspot_element 0] \<and>
         (\<exists>rest. events (run lib w) =
            ok [Launch True, New_context, New_page, Goto target_url, Click add_hotspot_button,
                Click hotspot_element, Click delete_hotspot_button] @
            (Expect_to_have_count hotspot_element 0,
             if count w1 hotspot_element = 0 then None else Some AssertionError) # rest) \<and>
         (count w1 hotspot_element \<noteq> 0 \<longrightarrow>
            (\<exists>rc. events (run lib w) =
               ok [Launch True, New_context, New_page, Goto target_url, Click add_hotspot_button,
                   Click hotspot_element, Click delete_hotspot_button] @
               [(Expect_to_have_count hotspot_element 0, Some AssertionError), (Close, rc)] \<and>
               outcome (run lib w) =
                 Inl (case rc of None \<Rightarrow> AssertionError | Some e' \<Rightarrow> e')))"
proof -
  have parts: "scenario_calls =
      [Goto target_url, Click add_hotspot_button, Click hotspot_element,
       Click delete_hotspot_button] @
      Expect_to_have_count hotspot_element 0 # [Screenshot screenshot_path None]"
    by (simp add: scenario_calls_def)
  have one: "filter is_expect script_calls = [Expect_to_have_count hotspot_element 0]"
    by (simp add: script_calls_list)
  from run_reaches [OF parts reach]
  have made: "\<exists>rest. events (run lib w) =
            ok [Launch True, New_context, New_page, Goto target_url, Click add_hotspot_button,
                Click hotspot_element, Click delete_hotspot_button] @
            (Expect_to_have_count hotspot_element 0,
             if count w1 hotspot_element = 0 then None else Some AssertionError) # rest"
    by (simp only: expect) (simp add: setup_calls_def)
  have "count w1 hotspot_element \<noteq> 0 \<longrightarrow>
            (\<exists>rc. events (run lib w) =
               ok [Launch True, New_context, New_page, Goto target_url, Click add_hotspot_button,
                   Click hotspot_element, Click delete_hotspot_button] @
               [(Expect_to_have_count hotspot_element 0, Some AssertionError), (Close, rc)] \<and>
               outcome (run lib w) =
                 Inl (case rc of None \<Rightarrow> AssertionError | Some e' \<Rightarrow> e'))"
  proof
    assume "count w1 hotspot_element \<noteq> 0"
    with expect have "fst (lib w1 (Expect_to_have_count hotspot_element 0)) = Some AssertionError"
      by simp
    from run_step_raises [OF parts reach this]
    show "\<exists>rc. events (run lib w) =
               ok [Launch True, New_context, New_page, Goto target_url, Click add_hotspot_button,
                   Click hotspot_element, Click delete_hotspot_button] @
               [(Expect_to_have_count hotspot_element 0, Some AssertionError), (Close, rc)] \<and>
               outcome (run lib w) =
                 Inl (case rc of None \<Rightarrow> AssertionError | Some e' \<Rightarrow> e')"
      by (simp add: setup_calls_def)
  qed
  with one made show ?thesis by blast
qed

theorem count_assertion_witness:
  "stub_count (clean_page\<lparr>markers := 1, selected := True, delete_works := False\<rparr>) hotspot_element \<noteq> 0 \<and>
   (\<exists>rc. events (run (stub []) (clean_page\<lparr>delete_works := False\<rparr>)) =
      ok [Launch True, New_context, New_page, Goto target_url, Click add_hotspot_button,
          Click hotspot_element, Click delete_hotspot_button] @
      [(Expect_to_have_count hotspot_element 0, Some AssertionError), (Close, rc)] \<and>
      outcome (run (stub []) (clean_page\<lparr>delete_works := False\<rparr>)) =
        Inl (case rc of None \<Rightarrow> AssertionError | Some e' \<Rightarrow> e'))"
proof -
  have expect: "\<And>w' l n. fst (stub [] w' (Expect_to_have_count l n)) =
        (if stub_count w' l = n then None else Some AssertionError)"
    by (simp add: stub_def)
  have reach: "invoke_each (stub [])
        (setup_calls @ [Goto target_url, Click add_hotspot_button, Click hotspot_element,
           Click delete_hotspot_button]) (clean_page\<lparr>delete_works := False\<rparr>) =
      (Inr (), clean_page\<lparr>markers := 1, selected := True, delete_works := False\<rparr>,
       ok (setup_calls @ [Goto target_url, Click add_hotspot_button, Click hotspot_element,
           Click delete_hotspot_button]))"
    by (simp add: setup_calls_def seq_def invoke_def stub_defs ok_def)
  have left: "stub_count (clean_page\<lparr>markers := 1, selected := True, delete_works := False\<rparr>)
      hotspot_element \<noteq> 0"
    by (simp add: stub_defs)
  from count_assertion [of "stub []" stub_count, OF expect reach] left
  show ?thesis by blast
qed

lemma answers_append:
  "answers lib (xs @ ys) w =
     (case answers lib xs w of (w1, t1) \<Rightarrow>
       (case answers lib ys w1 of (w2, t2) \<Rightarrow> (w2, t1 @ t2)))"
  by (induction xs arbitrary: w) (simp_all split: prod.splits)

lemma answers_calls: "calls (snd (answers lib cs w)) = cs"
  by (induction cs arbitrary: w) (simp_all add: case_prod_beta)

lemma answers_frame:
  assumes others: "\<And>w' c. \<not> is_screenshot c \<Longrightarrow> fs (snd (lib w' c)) = fs w'"
  shows "\<forall>c \<in> set cs. \<not> is_screenshot c \<Longrightarrow> fs (fst (answers lib cs w)) = fs w"
proof (induction cs arbitrary: w)
  case Nil
  show ?case by simp
next
  case (Cons c cs)
  then have "fs (fst (answers lib cs (snd (lib w c)))) = fs (snd (lib w c))" by simp
  moreover from Cons.prems have "fs (snd (lib w c)) = fs w" by (simp add: others)
  ultimately show ?case by (simp add: case_prod_beta)
qed

lemma invoke_answers:
  "answers lib (calls (events (invoke lib c w))) w = (world (invoke lib c w), events (invoke lib c w))"
  by (simp add: invoke_eq events_def world_def)

lemma seq_answers:
  assumes p: "\<And>w. answers lib (calls (events (p w))) w = (world (p w), events (p w))"
    and q: "\<And>w. answers lib (calls (events (q w))) w = (world (q w), events (q w))"
  shows "answers lib (calls (events (seq p q w))) w = (world (seq p q w), events (seq p q w))"
proof -
  obtain r1 w1 t1 where pw: "p w = (r1, w1, t1)" by (cases "p w") auto
  obtain r2 w2 t2 where qw: "q w1 = (r2, w2, t2)" by (cases "q w1") auto
  from p [of w] pw have a1: "answers lib (calls t1) w = (w1, t1)"
    by (simp add: events_def world_def)
  from q [of w1] qw have a2: "answers lib (calls t2) w1 = (w2, t2)"
    by (simp add: events_def world_def)
  show ?thesis
  proof (cases r1)
    case (Inl e)
    with pw a1 show ?thesis by (simp add: seq_def events_def world_def)
  next
    case (Inr u)
    with pw qw a1 a2 show ?thesis
      by (simp add: seq_def events_def world_def answers_append)
  qed
qed

lemma try_finally_answers:
  assumes p: "\<And>w. answers lib (calls (events (p w))) w = (world (p w), events (p w))"
    and q: "\<And>w. answers lib (calls (events (q w))) w = (world (q w), events (q w))"
  shows "answers lib (calls (events (try_finally p q w))) w =
           (world (try_finally p q w), events (try_finally p q w))"
proof -
  obtain r1 w1 t1 where pw: "p w = (r1, w1, t1)" by (cases "p w") auto
  obtain r2 w2 t2 where qw: "q w1 = (r2, w2, t2)" by (cases "q w1") auto
  from p [of w] pw have a1: "answers lib (calls t1) w = (w1, t1)"
    by (simp add: events_def world_def)
  from q [of w1] qw have a2: "answers lib (calls t2) w1 = (w2, t2)"
    by (simp add: events_def world_def)
  from pw qw a1 a2 show ?thesis
    by (cases r2) (simp_all add: try_finally_def events_def world_def answers_append)
qed

lemma script_answers:
  "answers lib (calls (events (script lib w))) w = (world (script lib w), events (script lib w))"
  unfolding script_def with_stmt_def run_def scenario_def
  by (intro seq_answers try_finally_answers invoke_answers)

lemma run_screenshot_made:
  assumes "Screenshot screenshot_path None \<in> set (calls (events (run lib w)))"
  shows "\<exists>r rc. events (run lib w) =
           ok [Launch True, New_context, New_page, Goto target_url, Click add_hotspot_button,
               Click hotspot_element, Click delete_hotspot_button,
               Expect_to_have_count hotspot_element 0] @
           [(Screenshot screenshot_path None, r), (Close, rc)]"
proof (cases rule: run_cases [of lib w])
  case (launch_raises e w')
  with assms show ?thesis by (simp add: events_def)
next
  case (context_raises e w')
  with assms show ?thesis by (simp add: events_def)
next
  case (page_raises e w')
  with assms show ?thesis by (simp add: events_def)
next
  case (scenario_done rc w')
  then show ?thesis
    by (simp add: events_def setup_calls_def scenario_calls_def ok_def)
next
  case (step_raises n e rc w')
  from step_raises(1) have "n = 0 \<or> n = 1 \<or> n = 2 \<or> n = 3 \<or> n = 4 \<or> n = 5" by arith
  then show ?thesis
  proof (elim disjE)
    assume "n = 5"
    with step_raises(2) show ?thesis
      by (simp add: events_def setup_calls_def scenario_calls_def ok_def)
  qed (use assms step_raises(2) in \<open>simp_all add: events_def setup_calls_def scenario_calls_def ok_def\<close>)
qed

lemma script_screenshot_made:
  assumes "Screenshot screenshot_path None \<in> set (calls (events (script lib w)))"
  shows "\<exists>r rc rx. events (script lib w) =
           ok [Sync_playwright_enter, Launch True, New_context, New_page, Goto target_url,
               Click add_hotspot_button, Click hotspot_element, Click delete_hotspot_button,
               Expect_to_have_count hotspot_element 0] @
           [(Screenshot screenshot_path None, r), (Close, rc), (Sync_playwright_exit, rx)]"
proof -
  from script_shape [of lib w] show ?thesis
  proof (elim disjE exE)
    fix e w'
    assume "script lib w = (Inl e, w', [(Sync_playwright_enter, Some e)])"
    with assms show ?thesis by (simp add: events_def)
  next
    fix w1 rx w'
    assume "script lib w =
      ((case rx of None \<Rightarrow> outcome (run lib w1) | Some e \<Rightarrow> Inl e), w',
       (Sync_playwright_enter, None) # events (run lib w1) @ [(Sync_playwright_exit, rx)])"
    then have ev: "events (script lib w) =
        (Sync_playwright_enter, None) # events (run lib w1) @ [(Sync_playwright_exit, rx)]"
      by (simp add: events_def)
    with assms have "Screenshot screenshot_path None \<in> set (calls (events (run lib w1)))"
      by simp
    from run_screenshot_made [OF this] obtain r rc where
      "events (run lib w1) =
           ok [Launch True, New_context, New_page, Goto target_url, Click add_hotspot_button,
               Click hotspot_element, Click delete_hotspot_button,
               Expect_to_have_count hotspot_element 0] @
           [(Screenshot screenshot_path None, r), (Close, rc)]"
      by blast
    with ev have "events (script lib w) =
           ok [Sync_playwright_enter, Launch True, New_context, New_page, Goto target_url,
               Click add_hotspot_button, Click hotspot_element, Click delete_hotspot_button,
               Expect_to_have_count hotspot_element 0] @
           [(Screenshot screenshot_path None, r), (Close, rc), (Sync_playwright_exit, rx)]"
      by (simp add: ok_def)
    then show ?thesis by blast
  qed
qed

lemma filter_distinct_single:
  assumes "distinct xs" and "\<forall>x \<in> set xs. P x \<longrightarrow> x = a"
  shows "filter P xs = (if a \<in> set xs \<and> P a then [a] else [])"
  using assms
proof (induction xs)
  case Nil
  show ?case by simp
next
  case (Cons y ys)
  from Cons.prems(1) have fresh: "y \<notin> set ys" and d: "distinct ys" by simp_all
  from Cons.prems(2) have rest: "\<forall>x \<in> set ys. P x \<longrightarrow> x = a"
    by (meson list.set_intros(2))
  from Cons.prems(2) have head: "P y \<Longrightarrow> y = a"
    by (meson list.set_intros(1))
  from Cons.IH [OF d rest] have IH: "filter P ys = (if a \<in> set ys \<and> P a then [a] else [])" .
  show ?case
  proof (cases "P y")
    case True
    from head [OF True] have y: "y = a" .
    from fresh y have "a \<notin> set ys" by simp
    with True y show ?thesis by (simp add: IH)
  next
    case False
    show ?thesis
    proof (cases "y = a")
      case True
      with False have "\<not> P a" by simp
      with False show ?thesis by (simp add: IH)
    next
      case neq: False
      from neq have "a \<noteq> y" by blast
      with False show ?thesis by (simp add: IH)
    qed
  qed
qed

lemma script_calls_screenshot:
  "c \<in> set script_calls \<Longrightarrow> is_screenshot c \<Longrightarrow> c = Screenshot screenshot_path None"
  by (auto simp add: script_calls_list)

section \<open>The file written\<close>

text \<open>
  C6: the screenshot is the only call of the script that names a file, it is made at
  most once and always for the fixed path \<^verbatim>\<open>jules-scratch/verification/verification.png\<close>,
  and when it is made the eight calls before it, the count assertion last, have
  returned. Take a library in which a screenshot that returns stores an image under its
  path, replacing what was there, and no other call touches the files. Then a run in
  which a call up to the assertion raised, or which for any reason does not reach the
  screenshot, leaves every file as it was; and a run whose screenshot returned leaves
  the files as they were except for the image under the fixed path.
\<close>

theorem only_write_is_screenshot:
  assumes others: "\<And>w' c. \<not> is_screenshot c \<Longrightarrow> fs (snd (lib w' c)) = fs w'"
    and shot: "\<And>w' p fp. fst (lib w' (Screenshot p fp)) = None \<Longrightarrow>
        \<exists>img. fs (snd (lib w' (Screenshot p fp))) = (fs w')(p \<mapsto> img)"
  shows "filter is_screenshot (calls (events (script lib w))) =
           (if Screenshot screenshot_path None \<in> set (calls (events (script lib w)))
            then [Screenshot screenshot_path None] else []) \<and>
         (Screenshot screenshot_path None \<in> set (calls (events (script lib w))) \<longrightarrow>
            (\<exists>r rest. events (script lib w) =
               ok [Sync_playwright_enter, Launch True, New_context, New_page, Goto target_url,
                   Click add_hotspot_button, Click hotspot_element, Click delete_hotspot_button,
                   Expect_to_have_count hotspot_element 0] @
               (Screenshot screenshot_path None, r) # rest)) \<and>
         (raised (take 9 (events (script lib w))) \<noteq> [] \<longrightarrow>
            Screenshot screenshot_path None \<notin> set (calls (events (script lib w)))) \<and>
         (Screenshot screenshot_path None \<notin> set (calls (events (script lib w))) \<longrightarrow>
            fs (world (script lib w)) = fs w) \<and>
         ((Screenshot screenshot_path None, None) \<in> set (events (script lib w)) \<longrightarrow>
            (\<exists>img. fs (world (script lib w)) = (fs w)(screenshot_path \<mapsto> img)))"
proof (intro conjI impI)
  have "\<forall>c \<in> set (calls (events (script lib w))). is_screenshot c \<longrightarrow> c = Screenshot screenshot_path None"
    using script_calls_subset [of lib w] script_calls_screenshot by blast
  from filter_distinct_single [OF script_calls_distinct this]
  show "filter is_screenshot (calls (events (script lib w))) =
           (if Screenshot screenshot_path None \<in> set (calls (events (script lib w)))
            then [Screenshot screenshot_path None] else [])"
    by simp
next
  assume "Screenshot screenshot_path None \<in> set (calls (events (script lib w)))"
  from script_screenshot_made [OF this]
  show "\<exists>r rest. events (script lib w) =
               ok [Sync_playwright_enter, Launch True, New_context, New_page, Goto target_url,
                   Click add_hotspot_button, Click hotspot_element, Click delete_hotspot_button,
                   Expect_to_have_count hotspot_element 0] @
               (Screenshot screenshot_path None, r) # rest"
    by blast
next
  assume early: "raised (take 9 (events (script lib w))) \<noteq> []"
  show "Screenshot screenshot_path None \<notin> set (calls (events (script lib w)))"
  proof
    assume "Screenshot screenshot_path None \<in> set (calls (events (script lib w)))"
    from script_screenshot_made [OF this] obtain r rc rx where
      "events (script lib w) =
           ok [Sync_playwright_enter, Launch True, New_context, New_page, Goto target_url,
               Click add_hotspot_button, Click hotspot_element, Click delete_hotspot_button,
               Expect_to_have_count hotspot_element 0] @
           [(Screenshot screenshot_path None, r), (Close, rc), (Sync_playwright_exit, rx)]"
      by blast
    then have "raised (take 9 (events (script lib w))) = []"
      by (simp add: ok_def)
    with early show False by simp
  qed
next
  assume none: "Screenshot screenshot_path None \<notin> set (calls (events (script lib w)))"
  have "\<forall>c \<in> set (calls (events (script lib w))). \<not> is_screenshot c"
    using script_calls_subset [of lib w] script_calls_screenshot none by blast
  from answers_frame [of fs lib, OF others this, of w]
  show "fs (world (script lib w)) = fs w"
    by (simp add: script_answers)
next
  assume written: "(Screenshot screenshot_path None, None) \<in> set (events (script lib w))"
  then have "Screenshot screenshot_path None \<in> set (calls (events (script lib w)))"
    by (force simp add: calls_def)
  from script_screenshot_made [OF this] obtain r rc rx where
    ev: "events (script lib w) =
           ok [Sync_playwright_enter, Launch True, New_context, New_page, Goto target_url,
               Click add_hotspot_button, Click hotspot_element, Click delete_hotspot_button,
               Expect_to_have_count hotspot_element 0] @
           [(Screenshot screenshot_path None, r), (Close, rc), (Sync_playwright_exit, rx)]"
    by blast
  define pre where "pre = [Sync_playwright_enter, Launch True, New_context, New_page, Goto target_url,
               Click add_hotspot_button, Click hotspot_element, Click delete_hotspot_button,
               Expect_to_have_count hotspot_element 0]"
  have clean: "\<forall>c \<in> set pre. \<not> is_screenshot c"
    by (simp add: pre_def)
  from ev have ev': "events (script lib w) =
      ok pre @ [(Screenshot screenshot_path None, r), (Close, rc), (Sync_playwright_exit, rx)]"
    by (simp only: pre_def)
  from clean have "(Screenshot screenshot_path None, None) \<notin> set (ok pre)"
    by (auto simp add: mem_ok)
  with written have r: "r = None"
    by (simp add: ev')
  define w9 where "w9 = fst (answers lib pre w)"
  define w10 where "w10 = snd (lib w9 (Screenshot screenshot_path None))"
  have cs: "calls (events (script lib w)) =
      pre @ Screenshot screenshot_path None # [Close, Sync_playwright_exit]"
    by (simp add: ev')
  from script_answers [of lib w]
  have ans: "answers lib (pre @ Screenshot screenshot_path None # [Close, Sync_playwright_exit]) w =
      (world (script lib w), events (script lib w))"
    by (simp only: cs)
  have split: "answers lib (pre @ Screenshot screenshot_path None # [Close, Sync_playwright_exit]) w =
      (fst (answers lib [Close, Sync_playwright_exit] w10),
       snd (answers lib pre w) @
       (Screenshot screenshot_path None, fst (lib w9 (Screenshot screenshot_path None))) #
       snd (answers lib [Close, Sync_playwright_exit] w10))"
    unfolding w9_def w10_def answers_append
    by (simp add: case_prod_beta del: answers.simps(2))
       (simp add: answers.simps(2) [of lib "Screenshot screenshot_path None"] case_prod_beta)
  from ans split have same: "snd (answers lib pre w) @
      (Screenshot screenshot_path None, fst (lib w9 (Screenshot screenshot_path None))) #
      snd (answers lib [Close, Sync_playwright_exit] w10) =
      ok pre @ (Screenshot screenshot_path None, None) # [(Close, rc), (Sync_playwright_exit, rx)]"
    and final: "world (script lib w) = fst (answers lib [Close, Sync_playwright_exit] w10)"
    by (simp_all add: ev' r)
  have "length (calls (snd (answers lib pre w))) = length pre"
    by (simp only: answers_calls)
  then have "length (snd (answers lib pre w)) = length (ok pre)"
    by (simp add: calls_def ok_def)
  with same have returned: "fst (lib w9 (Screenshot screenshot_path None)) = None"
    by (simp del: answers.simps)
  have before: "fs w9 = fs w"
    unfolding w9_def by (rule answers_frame [of fs lib, OF others clean])
  from shot [OF returned] obtain img where img: "fs w10 = (fs w9)(screenshot_path \<mapsto> img)"
    unfolding w10_def by blast
  have "\<forall>c \<in> set [Close, Sync_playwright_exit]. \<not> is_screenshot c" by simp
  from answers_frame [of fs lib, OF others this]
  have "fs (fst (answers lib [Close, Sync_playwright_exit] w10)) = fs w10" .
  with final img before
  show "\<exists>img. fs (world (script lib w)) = (fs w)(screenshot_path \<mapsto> img)"
    by auto
qed

theorem only_write_is_screenshot_witness:
  "(Screenshot screenshot_path None, None) \<in> set (events (script (stub []) clean_page)) \<and>
   (\<exists>img. files (world (script (stub []) clean_page)) =
      (files clean_page)(screenshot_path \<mapsto> img)) \<and>
   raised (take 9 (events (script (stub []) (clean_page\<lparr>delete_works := False\<rparr>)))) \<noteq> [] \<and>
   Screenshot screenshot_path None \<notin>
     set (calls (events (script (stub []) (clean_page\<lparr>delete_works := False\<rparr>)))) \<and>
   files (world (script (stub []) (clean_page\<lparr>delete_works := False\<rparr>))) =
     files (clean_page\<lparr>delete_works := False\<rparr>)"
proof -
  have others: "\<not> is_screenshot c \<Longrightarrow> files (snd (stub [] w' c)) = files w'" for w' c
    by (cases c) (simp_all add: stub_def stub_click_def)
  have shot: "fst (stub [] w' (Screenshot p fp)) = None \<Longrightarrow>
      \<exists>img. files (snd (stub [] w' (Screenshot p fp))) = (files w')(p \<mapsto> img)" for w' p fp
    by (simp add: stub_def) blast
  have made: "(Screenshot screenshot_path None, None) \<in> set (events (script (stub []) clean_page))"
    by (simp add: stub_script_clean script_calls_list ok_def)
  have early: "raised (take 9 (events (script (stub []) (clean_page\<lparr>delete_works := False\<rparr>)))) \<noteq> []"
    by (simp add: stub_script_regression ok_def)
  from only_write_is_screenshot [of files "stub []" clean_page, OF others shot] made
  have written: "\<exists>img. files (world (script (stub []) clean_page)) =
      (files clean_page)(screenshot_path \<mapsto> img)"
    by blast
  from only_write_is_screenshot [of files "stub []" "clean_page\<lparr>delete_works := False\<rparr>", OF others shot] early
  have "Screenshot screenshot_path None \<notin>
     set (calls (events (script (stub []) (clean_page\<lparr>delete_works := False\<rparr>))))"
    and "files (world (script (stub []) (clean_page\<lparr>delete_works := False\<rparr>))) =
     files (clean_page\<lparr>delete_works := False\<rparr>)"
    by blast+
  with made written early show ?thesis by blast
qed



section \<open>Releasing the browser\<close>



lemma stub_script_close_fault:
  "events (script (stub [Close]) clean_page) =
     ok [Sync_playwright_enter, Launch True, New_context, New_page, Goto target_url,
         Click add_hotspot_button, Click hotspot_element, Click delete_hotspot_button,
         Expect_to_have_count hotspot_element 0, Screenshot screenshot_path None] @
     [(Close, Some (PlaywrightError ''fault'')), (Sync_playwright_exit, None)] \<and>
   outcome (script (stub [Close]) clean_page) = Inl (PlaywrightError ''fault'')"
  by (simp add: run_defs stub_defs ok_def)

lemma stub_script_launch_fault:
  "events (script (stub [Launch True]) clean_page) =
     [(Sync_playwright_enter, None), (Launch True, Some (PlaywrightError ''fault'')),
      (Sync_playwright_exit, None)]"
  by (simp add: run_defs stub_defs)

lemma script_calls_take:
  "\<exists>n. 0 < n \<and> n \<le> 10 \<and>
     calls (events (script lib w)) =
       take n (Sync_playwright_enter # setup_calls @ scenario_calls) @
       (if 4 < n then [Close] else []) @ (if 1 < n then [Sync_playwright_exit] else [])"
proof -
  from script_shape [of lib w] show ?thesis
  proof (elim disjE exE)
    fix e w'
    assume "script lib w = (Inl e, w', [(Sync_playwright_enter, Some e)])"
    then have "calls (events (script lib w)) = [Sync_playwright_enter]"
      by (simp add: events_def)
    then show ?thesis by (intro exI [of _ 1]) simp
  next
    fix w1 rx w'
    assume "script lib w =
      ((case rx of None \<Rightarrow> outcome (run lib w1) | Some e \<Rightarrow> Inl e), w',
       (Sync_playwright_enter, None) # events (run lib w1) @ [(Sync_playwright_exit, rx)])"
    then have c: "calls (events (script lib w)) =
        Sync_playwright_enter # calls (events (run lib w1)) @ [Sync_playwright_exit]"
      by (simp add: events_def)
    from run_calls_take [of lib w1] obtain m where m: "0 < m" "m \<le> 9"
      and r: "calls (events (run lib w1)) =
        take m (setup_calls @ scenario_calls) @ (if 3 < m then [Close] else [])"
      by blast
    from m have "calls (events (script lib w)) =
       take (Suc m) (Sync_playwright_enter # setup_calls @ scenario_calls) @
       (if 4 < Suc m then [Close] else []) @ (if 1 < Suc m then [Sync_playwright_exit] else [])"
      by (simp add: c r del: take_append)
    with m show ?thesis by (intro exI [of _ "Suc m"]) simp
  qed
qed

lemma script_calls_by_length:
  assumes "length (events (script lib w)) = length (events (script lib' w'))"
  shows "calls (events (script lib w)) = calls (events (script lib' w'))"
proof -
  from script_calls_take [of lib w] obtain n where n: "0 < n" "n \<le> 10"
    and c: "calls (events (script lib w)) =
       take n (Sync_playwright_enter # setup_calls @ scenario_calls) @
       (if 4 < n then [Close] else []) @ (if 1 < n then [Sync_playwright_exit] else [])"
    by blast
  from script_calls_take [of lib' w'] obtain m where m: "0 < m" "m \<le> 10"
    and c': "calls (events (script lib' w')) =
       take m (Sync_playwright_enter # setup_calls @ scenario_calls) @
       (if 4 < m then [Close] else []) @ (if 1 < m then [Sync_playwright_exit] else [])"
    by blast
  have "length (calls (events (script lib w))) = length (calls (events (script lib' w')))"
    using assms by (simp add: calls_def)
  with n m have "n + (if 4 < n then 1 else 0) + (if 1 < n then 1 else 0) =
      m + (if 4 < m then 1 else 0) + (if 1 < m then (1::nat) else 0)"
    by (simp only: c c') (simp del: take_append split: if_splits)
  with n m have "n = m" by (simp split: if_splits)
  with c c' show ?thesis by simp
qed

section \<open>The exit status\<close>

text \<open>
  C4, as stated: the status is 0 if and only if all steps and the count assertion
  succeed. The "if" fails: when every step, the assertion and the screenshot return and
  \<^verbatim>\<open>browser.close()\<close> in the \<^verbatim>\<open>finally\<close> block raises, that exception leaves the module
  and the status is 1.
\<close>

theorem close_raises_status_counterexample:
  "snd (main [] (map_of []) (fixed (stub [Close])) clean_page) =
     ok [Sync_playwright_enter, Launch True, New_context, New_page, Goto target_url,
         Click add_hotspot_button, Click hotspot_element, Click delete_hotspot_button,
         Expect_to_have_count hotspot_element 0, Screenshot screenshot_path None] @
     [(Close, Some (PlaywrightError ''fault'')), (Sync_playwright_exit, None)] \<and>
   fst (main [] (map_of []) (fixed (stub [Close])) clean_page) = 1"
  by (simp add: main_eq fixed_def stub_script_close_fault exit_status_def)

text \<open>
  C4, amended: the process ends with status 0 exactly when every call of the script
  was made and returned: the steps and the count assertion, and also entering the
  \<^verbatim>\<open>sync_playwright()\<close> scope, closing the browser and leaving the scope. As soon as any
  call raised (navigation, locator timeout, assertion mismatch, screenshot, or one of
  the other calls), the status is 1 and the exception that leaves the module is the last
  one raised: no exception is caught by the script. No call is made twice: nothing is
  retried.
\<close>

theorem exit_status_zero_iff:
  "(fst (main argv environ plib w) = 0 \<longleftrightarrow> snd (main argv environ plib w) = ok script_calls) \<and>
   (raised (snd (main argv environ plib w)) \<noteq> [] \<longrightarrow>
      fst (main argv environ plib w) = 1 \<and>
      outcome (script (plib argv environ) w) =
        Inl (last (raised (snd (main argv environ plib w))))) \<and>
   distinct (calls (snd (main argv environ plib w)))"
proof -
  define lib where "lib = plib argv environ"
  have status: "fst (main argv environ plib w) = exit_status (outcome (script lib w))"
    and trace: "snd (main argv environ plib w) = events (script lib w)"
    by (simp_all add: main_eq lib_def)
  have quiet: "outcome (script lib w) = Inr () \<longleftrightarrow> raised (events (script lib w)) = []"
    using script_outcome_last [of lib w] by (simp split: if_splits)
  have "raised (events (script lib w)) = [] \<longleftrightarrow> events (script lib w) = ok script_calls"
  proof
    assume "raised (events (script lib w)) = []"
    then show "events (script lib w) = ok script_calls" by (rule script_no_raise)
  next
    assume "events (script lib w) = ok script_calls"
    then show "raised (events (script lib w)) = []" by simp
  qed
  with quiet have zero: "fst (main argv environ plib w) = 0 \<longleftrightarrow>
      snd (main argv environ plib w) = ok script_calls"
    by (simp add: status trace exit_status_zero)
  have one: "raised (snd (main argv environ plib w)) \<noteq> [] \<longrightarrow>
      fst (main argv environ plib w) = 1 \<and>
      outcome (script (plib argv environ) w) =
        Inl (last (raised (snd (main argv environ plib w))))"
    using script_outcome_last [of lib w]
    by (simp add: status trace exit_status_one) (simp add: lib_def)
  have "distinct (calls (snd (main argv environ plib w)))"
    by (simp add: trace script_calls_distinct)
  with zero one show ?thesis by blast
qed

theorem exit_status_zero_iff_witness:
  "fst (main [] Map.empty (fixed (stub [])) clean_page) = 0 \<and>
   raised (snd (main [] Map.empty (fixed (stub [])) (clean_page\<lparr>delete_works := False\<rparr>))) =
     [AssertionError] \<and>
   fst (main [] Map.empty (fixed (stub [])) (clean_page\<lparr>delete_works := False\<rparr>)) = 1 \<and>
   outcome (script (stub []) (clean_page\<lparr>delete_works := False\<rparr>)) = Inl AssertionError"
proof -
  have all_made: "snd (main [] Map.empty (fixed (stub [])) clean_page) = ok script_calls"
    by (simp add: main_eq fixed_def stub_script_clean)
  have failed: "raised (snd (main [] Map.empty (fixed (stub []))
      (clean_page\<lparr>delete_works := False\<rparr>))) = [AssertionError]"
    by (simp add: main_eq fixed_def stub_script_regression)
  then have some: "raised (snd (main [] Map.empty (fixed (stub []))
      (clean_page\<lparr>delete_works := False\<rparr>))) \<noteq> []"
    by simp
  from exit_status_zero_iff [of "[]" Map.empty "fixed (stub [])" clean_page] all_made
  have "fst (main [] Map.empty (fixed (stub [])) clean_page) = 0" by blast
  moreover
  from exit_status_zero_iff [of "[]" Map.empty "fixed (stub [])" "clean_page\<lparr>delete_works := False\<rparr>"] some
  have "fst (main [] Map.empty (fixed (stub [])) (clean_page\<lparr>delete_works := False\<rparr>)) = 1"
    and "outcome (script (fixed (stub []) [] Map.empty) (clean_page\<lparr>delete_works := False\<rparr>)) =
      Inl (last (raised (snd (main [] Map.empty (fixed (stub []))
        (clean_page\<lparr>delete_works := False\<rparr>)))))"
    by blast+
  ultimately show ?thesis using failed by (simp add: fixed_def)
qed

section \<open>Arguments and environment\<close>

text \<open>
  C8, as stated: two invocations that differ only in the argument vector and the
  environment issue the same sequence of calls. The library runs in the process and can
  read the environment: against a library that does not find its browser when
  \<^verbatim>\<open>PLAYWRIGHT_BROWSERS_PATH\<close> points elsewhere, the invocation with the variable set stops
  after the launch, the one without it makes all twelve calls.
\<close>

theorem environment_changes_calls_counterexample:
  "calls (snd (main [] (map_of []) env_stub clean_page)) = script_calls \<and>
   calls (snd (main [] (map_of [(''PLAYWRIGHT_BROWSERS_PATH'', ''/nonexistent'')]) env_stub
      clean_page)) = [Sync_playwright_enter, Launch True, Sync_playwright_exit] \<and>
   calls (snd (main [] (map_of []) env_stub clean_page)) \<noteq>
   calls (snd (main [] (map_of [(''PLAYWRIGHT_BROWSERS_PATH'', ''/nonexistent'')]) env_stub
      clean_page))"
  by (simp add: main_eq env_stub_def stub_script_clean stub_script_launch_fault script_calls_list)

text \<open>
  C8, amended: the script itself consumes no flags, arguments or environment variables.
  Every call it issues is one of the twelve calls written in the source, with the URL,
  the locators and the output path written there, and which of them are issued depends
  only on what the library answers: for any two invocations, whatever their argument
  vectors, environments, libraries and worlds, in which the calls are answered alike
  (the same outcomes in the same order), the sequence of calls issued is identical. In
  particular two invocations that differ only in argument vector and environment, against
  a library that behaves the same under both, issue the same calls with the same
  outcomes and end with the same status.
\<close>

theorem calls_fixed_by_source:
  "(map snd (snd (main argv environ plib w)) = map snd (snd (main argv' environ' plib' w')) \<longrightarrow>
      calls (snd (main argv environ plib w)) = calls (snd (main argv' environ' plib' w'))) \<and>
   (plib argv environ = plib argv' environ' \<longrightarrow>
      main argv environ plib w = main argv' environ' plib w) \<and>
   set (calls (snd (main argv environ plib w))) \<subseteq> set script_calls \<and>
   script_calls =
     [Sync_playwright_enter, Launch True, New_context, New_page,
      Goto ''http://localhost:3000/mobile-test'',
      Click (Locator ''button'' (Some ''Add Hotspot'')),
      Click (Locator ''.hotspot-element'' None),
      Click (Locator ''button[aria-label='Delete hotspot']'' None),
      Expect_to_have_count (Locator ''.hotspot-element'' None) 0,
      Screenshot ''jules-scratch/verification/verification.png'' None, Close,
      Sync_playwright_exit]"
proof (intro conjI impI)
  assume "map snd (snd (main argv environ plib w)) = map snd (snd (main argv' environ' plib' w'))"
  then have "length (map snd (events (script (plib argv environ) w))) =
      length (map snd (events (script (plib' argv' environ') w')))"
    by (simp only: main_eq snd_conv)
  then have "length (events (script (plib argv environ) w)) =
      length (events (script (plib' argv' environ') w'))"
    by simp
  then have "calls (events (script (plib argv environ) w)) =
      calls (events (script (plib' argv' environ') w'))"
    by (rule script_calls_by_length)
  then show "calls (snd (main argv environ plib w)) = calls (snd (main argv' environ' plib' w'))"
    by (simp add: main_eq)
next
  assume "plib argv environ = plib argv' environ'"
  then show "main argv environ plib w = main argv' environ' plib w"
    by (simp add: main_eq)
next
  show "set (calls (snd (main argv environ plib w))) \<subseteq> set script_calls"
    by (simp add: main_eq script_calls_subset)
next
  show "script_calls =
     [Sync_playwright_enter, Launch True, New_context, New_page,
      Goto ''http://localhost:3000/mobile-test'',
      Click (Locator ''button'' (Some ''Add Hotspot'')),
      Click (Locator ''.hotspot-element'' None),
      Click (Locator ''button[aria-label='Delete hotspot']'' None),
      Expect_to_have_count (Locator ''.hotspot-element'' None) 0,
      Screenshot ''jules-scratch/verification/verification.png'' None, Close,
      Sync_playwright_exit]"
    by (simp add: script_calls_list target_url_def add_hotspot_button_def hotspot_element_def
        delete_hotspot_button_def screenshot_path_def)
qed

theorem calls_fixed_by_source_witness:
  "map snd (snd (main [] (map_of []) env_stub clean_page)) =
     map snd (snd (main [''--headed''] (map_of [(''HOME'', ''/root'')]) (fixed (stub []))
       clean_page)) \<and>
   calls (snd (main [] (map_of []) env_stub clean_page)) =
     calls (snd (main [''--headed''] (map_of [(''HOME'', ''/root'')]) (fixed (stub []))
       clean_page)) \<and>
   env_stub [] (map_of []) = env_stub [''--headed''] (map_of [(''HOME'', ''/root'')]) \<and>
   main [] (map_of []) env_stub clean_page =
     main [''--headed''] (map_of [(''HOME'', ''/root'')]) env_stub clean_page"
proof -
  have alike: "map snd (snd (main [] (map_of []) env_stub clean_page)) =
     map snd (snd (main [''--headed''] (map_of [(''HOME'', ''/root'')]) (fixed (stub []))
       clean_page))"
    by (simp add: main_eq env_stub_def fixed_def)
  have same_lib: "env_stub [] (map_of []) = env_stub [''--headed''] (map_of [(''HOME'', ''/root'')])"
    by (simp add: env_stub_def)
  from calls_fixed_by_source [of "[]" "map_of []" env_stub clean_page
      "[''--headed'']" "map_of [(''HOME'', ''/root'')]" "fixed (stub [])" clean_page] alike
  have "calls (snd (main [] (map_of []) env_stub clean_page)) =
     calls (snd (main [''--headed''] (map_of [(''HOME'', ''/root'')]) (fixed (stub []))
       clean_page))"
    by blast
  moreover
  from calls_fixed_by_source [of "[]" "map_of []" env_stub clean_page
      "[''--headed'']" "map_of [(''HOME'', ''/root'')]" env_stub clean_page] same_lib
  have "main [] (map_of []) env_stub clean_page =
     main [''--headed''] (map_of [(''HOME'', ''/root'')]) env_stub clean_page"
    by blast
  ultimately show ?thesis using alike same_lib by blast
qed

end
